theory Spec2Isabelle
  imports Main "HOL-Library.List_Lexorder" "HOL-Library.Char_ord" "HOL-Library.Multiset"
begin

section \<open>The file system the program runs against\<close>

text \<open>
  \<^verbatim>\<open>qa/book/dead_pages.py\<close> works on \<^verbatim>\<open>pathlib.Path\<close> values. Every path the
  program builds is absolute (it starts from \<^verbatim>\<open>Path(__file__).resolve()\<close>), so a path
  is the list of its components below the root \<^verbatim>\<open>/\<close>. Python compares two paths
  component by component, which is the lexicographic order on lists of strings.
  Strings are byte strings; every character the program inspects is ASCII.
  A root written with exactly two slashes is identified with \<^verbatim>\<open>/\<close>.
\<close>

type_synonym path = "string list"

text \<open>
  The tree on disk. A regular file carries its text, a symbolic link carries the
  canonical path it finally resolves to, a directory carries its entries in the order
  in which the operating system enumerates them.
\<close>

datatype node = File string | Link path | Dir "(string \<times> node) list"

text \<open>Literal lookup of a path in the tree; symbolic links are not followed.\<close>

fun lookup :: "node \<Rightarrow> path \<Rightarrow> node option" where
  "lookup n [] = Some n"
| "lookup (Dir kids) (c # cs) =
     (case map_of kids c of None \<Rightarrow> None | Some k \<Rightarrow> lookup k cs)"
| "lookup (File _) (c # cs) = None"
| "lookup (Link _) (c # cs) = None"

text \<open>
  \<^verbatim>\<open>Path.resolve()\<close> (non-strict): the components are consumed left to right from the
  canonical prefix \<open>acc\<close>; \<^verbatim>\<open>..\<close> steps to the parent (the parent of the root is the
  root), a component that names a symbolic link is replaced by the link's target, any
  other component is appended whether or not it exists.
\<close>

fun realpath_from :: "node \<Rightarrow> path \<Rightarrow> path \<Rightarrow> path" where
  "realpath_from root acc [] = acc"
| "realpath_from root acc (c # cs) =
     (if c = ''..'' then realpath_from root (butlast acc) cs
      else (case lookup root (acc @ [c]) of
              Some (Link t) \<Rightarrow> realpath_from root t cs
            | _ \<Rightarrow> realpath_from root (acc @ [c]) cs))"

definition resolve :: "node \<Rightarrow> path \<Rightarrow> path" where
  "resolve root p = realpath_from root [] p"

text \<open>\<^verbatim>\<open>Path.exists()\<close> follows symbolic links; a dangling link does not exist.\<close>

definition exists_path :: "node \<Rightarrow> path \<Rightarrow> bool" where
  "exists_path root p =
     (case lookup root (resolve root p) of
        Some (File _) \<Rightarrow> True | Some (Dir _) \<Rightarrow> True | _ \<Rightarrow> False)"

definition is_dir :: "node \<Rightarrow> path \<Rightarrow> bool" where
  "is_dir root p =
     (case lookup root (resolve root p) of Some (Dir _) \<Rightarrow> True | _ \<Rightarrow> False)"

datatype py_error =
    FileNotFoundError string
  | IsADirectoryError
  | ValueError

text \<open>\<^verbatim>\<open>Path.read_text()\<close>: the text of a regular file, an exception otherwise.\<close>

definition read_text :: "node \<Rightarrow> path \<Rightarrow> py_error + string" where
  "read_text root p =
     (case lookup root (resolve root p) of
        Some (File content) \<Rightarrow> Inr content
      | Some (Dir _) \<Rightarrow> Inl IsADirectoryError
      | _ \<Rightarrow> Inl (FileNotFoundError []))"

text \<open>
  The recursive walk behind \<^verbatim>\<open>Path.rglob\<close>: every entry below a directory; the walk
  descends into directories and not into symbolic links. The order in which the entries
  come is the operating system's; \<^verbatim>\<open>find_dead_pages\<close> sorts what it collects, and
  its result is the same for every order (lemma \<open>dead_of_entries_order\<close>).
\<close>

fun walk :: "path \<Rightarrow> (string \<times> node) list \<Rightarrow> path list" where
  "walk p [] = []"
| "walk p ((n, File c) # rest) = (p @ [n]) # walk p rest"
| "walk p ((n, Link t) # rest) = (p @ [n]) # walk p rest"
| "walk p ((n, Dir kids) # rest) = (p @ [n]) # walk (p @ [n]) kids @ walk p rest"

section \<open>Path algebra of \<^verbatim>\<open>pathlib\<close>\<close>

text \<open>Splitting a string at every \<^verbatim>\<open>/\<close>.\<close>

fun split_slash :: "string \<Rightarrow> string list" where
  "split_slash [] = [[]]"
| "split_slash (c # cs) =
     (if c = CHR ''/'' then [] # split_slash cs
      else (case split_slash cs of w # ws \<Rightarrow> (c # w) # ws | [] \<Rightarrow> [[c]]))"

text \<open>
  The components of a path string as \<^verbatim>\<open>pathlib\<close> keeps them: empty components and
  \<^verbatim>\<open>.\<close> are dropped, \<^verbatim>\<open>..\<close> is kept.
\<close>

definition path_parts :: "string \<Rightarrow> path" where
  "path_parts s = filter (\<lambda>c. c \<noteq> [] \<and> c \<noteq> ''.'') (split_slash s)"

definition is_absolute :: "string \<Rightarrow> bool" where
  "is_absolute s = (case s of c # _ \<Rightarrow> c = CHR ''/'' | [] \<Rightarrow> False)"

text \<open>\<^verbatim>\<open>base / target\<close>: an absolute right operand replaces the left one.\<close>

definition joinpath :: "path \<Rightarrow> string \<Rightarrow> path" where
  "joinpath base target =
     (if is_absolute target then path_parts target else base @ path_parts target)"

text \<open>\<^verbatim>\<open>Path.parent\<close>; the parent of the root is the root.\<close>

definition parent :: "path \<Rightarrow> path" where
  "parent p = butlast p"

text \<open>\<^verbatim>\<open>Path.name\<close>; the root has the empty name.\<close>

definition name :: "path \<Rightarrow> string" where
  "name p = (case rev p of [] \<Rightarrow> [] | n # _ \<Rightarrow> n)"

fun join_slash :: "string list \<Rightarrow> string" where
  "join_slash [] = []"
| "join_slash [c] = c"
| "join_slash (c # d # cs) = c @ ''/'' @ join_slash (d # cs)"

text \<open>\<^verbatim>\<open>str\<close> of an absolute path, and of a relative one (\<^verbatim>\<open>.\<close> when empty).\<close>

definition path_str :: "path \<Rightarrow> string" where
  "path_str p = ''/'' @ join_slash p"

definition rel_str :: "string list \<Rightarrow> string" where
  "rel_str p = (if p = [] then ''.'' else join_slash p)"

text \<open>\<^verbatim>\<open>page.relative_to(base)\<close> raises \<^verbatim>\<open>ValueError\<close> unless \<open>base\<close> is a prefix.\<close>

definition relative_to :: "path \<Rightarrow> path \<Rightarrow> py_error + string list" where
  "relative_to page base =
     (if take (length base) page = base then Inr (drop (length base) page)
      else Inl ValueError)"

text \<open>
  \<^verbatim>\<open>book_src.rglob('*.md')\<close>: the entries below \<open>book_src\<close> whose name ends in
  \<^verbatim>\<open>.md\<close>, as paths below \<open>book_src\<close> itself. Nothing is produced when \<open>book_src\<close> is
  not a directory.
\<close>

definition ends_md :: "string \<Rightarrow> bool" where
  "ends_md n = (take 3 (rev n) = ''dm.'')"

definition rglob_md :: "node \<Rightarrow> path \<Rightarrow> path list" where
  "rglob_md root book_src =
     (case lookup root (resolve root book_src) of
        Some (Dir kids) \<Rightarrow> filter (\<lambda>p. ends_md (name p)) (walk book_src kids)
      | _ \<Rightarrow> [])"

section \<open>The link pattern\<close>

text \<open>
  \<^verbatim>\<open>\[([^\]]+)\]\(([^)]+)\)\<close> tried at the head of a string: the target (group 2)
  and the text after the match. Both character classes exclude the character that must
  follow them, so the greedy runs are the only way to match.
\<close>

definition run_until :: "char \<Rightarrow> string \<Rightarrow> (string \<times> string) option" where
  "run_until stop s =
     (let run = takeWhile (\<lambda>x. x \<noteq> stop) s
      in if run = [] then None
         else (case dropWhile (\<lambda>x. x \<noteq> stop) s of
                 [] \<Rightarrow> None
               | _ # r \<Rightarrow> Some (run, r)))"

definition match_link :: "string \<Rightarrow> (string \<times> string) option" where
  "match_link s =
     (case s of
        [] \<Rightarrow> None
      | c # r \<Rightarrow>
          if c \<noteq> CHR ''['' then None
          else (case run_until CHR '']'' r of
                  None \<Rightarrow> None
                | Some (label, r1) \<Rightarrow>
                    (case r1 of
                       [] \<Rightarrow> None
                     | b # r2 \<Rightarrow>
                         if b \<noteq> CHR ''('' then None
                         else (case run_until CHR '')'' r2 of
                                 None \<Rightarrow> None
                               | Some (target, r4) \<Rightarrow> Some (target, r4)))))"

lemma run_until_shorter: "run_until stop s = Some (a, r) \<Longrightarrow> length r < length s"
proof -
  assume h: "run_until stop s = Some (a, r)"
  then obtain x where d: "dropWhile (\<lambda>x. x \<noteq> stop) s = x # r"
    by (simp add: run_until_def Let_def split: if_splits list.splits)
  have "length (dropWhile (\<lambda>x. x \<noteq> stop) s) \<le> length s"
    by (rule length_dropWhile_le)
  with d show ?thesis by simp
qed

lemma match_link_shorter: "match_link s = Some (t, r) \<Longrightarrow> length r < length s"
proof -
  assume m: "match_link s = Some (t, r)"
  then obtain c r0 where s: "s = c # r0"
    by (cases s) (simp_all add: match_link_def)
  from m s obtain label r1 where u1: "run_until CHR '']'' r0 = Some (label, r1)"
    by (cases "run_until CHR '']'' r0") (auto simp: match_link_def split: if_splits)
  from m s u1 obtain b r2 where r1: "r1 = b # r2"
    by (cases r1) (auto simp: match_link_def split: if_splits)
  from m s u1 r1 have u2: "run_until CHR '')'' r2 = Some (t, r)"
    by (cases "run_until CHR '')'' r2") (auto simp: match_link_def split: if_splits)
  have "length r < length r2" by (rule run_until_shorter [OF u2])
  moreover have "length r1 < length r0" by (rule run_until_shorter [OF u1])
  ultimately show ?thesis using s r1 by simp
qed

text \<open>
  \<^verbatim>\<open>link_pattern.finditer(content)\<close>: the targets of the non-overlapping matches from
  left to right; after a match the scan goes on behind it, otherwise one character on.
\<close>

function finditer :: "string \<Rightarrow> string list" where
  "finditer s =
     (if s = [] then []
      else (case match_link s of
              Some (t, r) \<Rightarrow> t # finditer r
            | None \<Rightarrow> finditer (tl s)))"
  by pat_completeness auto
termination
proof (relation "measure length")
  show "wf (measure length)" by simp
next
  fix s :: string and x2 x y
  assume "s \<noteq> []" and "match_link s = Some x2" and "(x, y) = x2"
  then have "match_link s = Some (x, y)" by simp
  then show "(y, s) \<in> measure length" by (simp add: match_link_shorter)
next
  fix s :: string
  assume "s \<noteq> []"
  then show "(tl s, s) \<in> measure length" by (cases s) simp_all
qed

declare finditer.simps [simp del]


section \<open>The program\<close>

text \<open>
  \<^verbatim>\<open>find_book_src\<close>: \<open>script_file\<close> is the absolute path in \<^verbatim>\<open>__file__\<close>. The book
  source is two levels above the script's directory, then \<^verbatim>\<open>book/src\<close>.
\<close>

definition find_book_src :: "node \<Rightarrow> path \<Rightarrow> py_error + path" where
  "find_book_src root script_file =
     (let script_dir = parent (resolve root script_file);
          book_src = parent (parent script_dir) @ [''book'', ''src'']
      in if \<not> exists_path root book_src
         then Inl (FileNotFoundError (''Book source directory not found at '' @ path_str book_src))
         else Inr book_src)"

definition startswith :: "string \<Rightarrow> string \<Rightarrow> bool" where
  "startswith s pre = (take (length pre) s = pre)"

text \<open>\<^verbatim>\<open>target.split('#')[0]\<close>, applied when the target contains \<^verbatim>\<open>#\<close>.\<close>

definition strip_anchor :: "string \<Rightarrow> string" where
  "strip_anchor target =
     (if CHR ''#'' \<in> set target then takeWhile (\<lambda>x. x \<noteq> CHR ''#'') target else target)"

definition is_external :: "string \<Rightarrow> bool" where
  "is_external target =
     (startswith target ''http://'' \<or> startswith target ''https://'' \<or> startswith target ''mailto:'')"

text \<open>One pass of the loop body of \<^verbatim>\<open>parse_summary\<close> on a matched target.\<close>

definition add_link :: "node \<Rightarrow> path \<Rightarrow> string \<Rightarrow> path set \<Rightarrow> path set" where
  "add_link root summary_path group2 files =
     (let target = strip_anchor group2
      in if is_external target then files
         else if target = [] then files
         else insert (resolve root (joinpath (parent summary_path) target)) files)"

text \<open>The loop of \<^verbatim>\<open>parse_summary\<close> over the text already read.\<close>

definition parse_content :: "node \<Rightarrow> path \<Rightarrow> string \<Rightarrow> path set" where
  "parse_content root summary_path content =
     fold (add_link root summary_path) (finditer content) {}"

definition parse_summary :: "node \<Rightarrow> path \<Rightarrow> py_error + path set" where
  "parse_summary root summary_path =
     (case read_text root summary_path of
        Inl e \<Rightarrow> Inl e
      | Inr content \<Rightarrow> Inr (parse_content root summary_path content))"

text \<open>
  The targets the loop of \<^verbatim>\<open>parse_summary\<close> resolves, in order: the matched targets
  after anchor stripping, without those the two \<^verbatim>\<open>continue\<close>s skip.
\<close>

definition link_targets :: "string \<Rightarrow> string list" where
  "link_targets content =
     filter (\<lambda>t. \<not> is_external t \<and> t \<noteq> []) (map strip_anchor (finditer content))"

text \<open>One pass of the loop body of \<^verbatim>\<open>find_dead_pages\<close>.\<close>

definition dead_step :: "node \<Rightarrow> path set \<Rightarrow> path \<Rightarrow> path list \<Rightarrow> path list" where
  "dead_step root summary_files md_file dead =
     (let resolved = resolve root md_file
      in if name md_file = ''SUMMARY.md'' then dead
         else if resolved \<notin> summary_files then dead @ [resolved]
         else dead)"

text \<open>The loop of \<^verbatim>\<open>find_dead_pages\<close> over the entries the walk produced, then \<^verbatim>\<open>sorted\<close>.\<close>

definition dead_of_entries :: "node \<Rightarrow> path set \<Rightarrow> path list \<Rightarrow> path list" where
  "dead_of_entries root summary_files entries =
     sort (fold (dead_step root summary_files) entries [])"

definition find_dead_pages :: "node \<Rightarrow> path \<Rightarrow> path set \<Rightarrow> path list" where
  "find_dead_pages root book_src summary_files =
     dead_of_entries root summary_files (rglob_md root book_src)"

text \<open>Decimal rendering of a length, as an f-string prints it.\<close>

definition digit_char :: "nat \<Rightarrow> char" where
  "digit_char d = char_of (48 + d)"

function str_nat :: "nat \<Rightarrow> string" where
  "str_nat n = (if n < 10 then [digit_char n] else str_nat (n div 10) @ [digit_char (n mod 10)])"
  by pat_completeness auto
termination
  by (relation "measure id") auto

declare str_nat.simps [simp del]

text \<open>What a run has printed: one string per \<^verbatim>\<open>print\<close> call, per stream.\<close>

record streams =
  stdout :: "string list"
  stderr :: "string list"

definition print_out :: "string \<Rightarrow> streams \<Rightarrow> streams" where
  "print_out line out = out\<lparr>stdout := stdout out @ [line]\<rparr>"

definition print_err :: "string \<Rightarrow> streams \<Rightarrow> streams" where
  "print_err line out = out\<lparr>stderr := stderr out @ [line]\<rparr>"

text \<open>The reporting loop at the end of \<^verbatim>\<open>main\<close>; \<^verbatim>\<open>relative_to\<close> may raise.\<close>

fun print_pages :: "path \<Rightarrow> path list \<Rightarrow> streams \<Rightarrow> streams \<times> (py_error + unit)" where
  "print_pages book_src [] out = (out, Inr ())"
| "print_pages book_src (page # pages) out =
     (case relative_to page book_src of
        Inl e \<Rightarrow> (out, Inl e)
      | Inr rel_path \<Rightarrow> print_pages book_src pages (print_out (''  '' @ rel_str rel_path) out))"

text \<open>
  \<^verbatim>\<open>main\<close>: what was printed, and the returned status or the exception that escaped.
\<close>

definition main :: "node \<Rightarrow> path \<Rightarrow> streams \<times> (py_error + int)" where
  "main root script_file =
     (let out0 = \<lparr>stdout = [], stderr = []\<rparr>
      in case find_book_src root script_file of
           Inl (FileNotFoundError e) \<Rightarrow> (print_err (''Error: '' @ e) out0, Inr 1)
         | Inl e \<Rightarrow> (out0, Inl e)
         | Inr book_src \<Rightarrow>
             (let summary_path = book_src @ [''SUMMARY.md'']
              in if \<not> exists_path root summary_path
                 then (print_err (''Error: SUMMARY.md not found at '' @ path_str summary_path) out0,
                       Inr 1)
                 else
                   (let out1 = print_out (''Checking for dead pages in: '' @ path_str book_src) out0
                    in case parse_summary root summary_path of
                         Inl e \<Rightarrow> (out1, Inl e)
                       | Inr summary_files \<Rightarrow>
                           (let out2 = print_out (''Found '' @ str_nat (card summary_files)
                                                   @ '' files in SUMMARY.md'') out1;
                                dead_pages = find_dead_pages root book_src summary_files
                            in if dead_pages = []
                               then (print_out (CHR 10 # ''No dead pages found!'') out2, Inr 0)
                               else
                                 (let out3 = print_out (CHR 10 # ''Found '' @ str_nat (length dead_pages)
                                                @ '' dead page(s) (not in SUMMARY.md):'' @ [CHR 10]) out2
                                  in case print_pages book_src dead_pages out3 of
                                       (out4, Inl e) \<Rightarrow> (out4, Inl e)
                                     | (out4, Inr _) \<Rightarrow> (out4, Inr 1))))))"

text \<open>
  \<^verbatim>\<open>sys.exit(main())\<close>: the returned status, or status 1 when an exception escapes.
\<close>

definition exit_status :: "py_error + int \<Rightarrow> int" where
  "exit_status r = (case r of Inl _ \<Rightarrow> 1 | Inr n \<Rightarrow> n)"



definition run_dead_pages :: "node \<Rightarrow> path \<Rightarrow> path list option" where
  "run_dead_pages root script_file =
     (case find_book_src root script_file of
        Inl _ \<Rightarrow> None
      | Inr book_src \<Rightarrow>
          if \<not> exists_path root (book_src @ [''SUMMARY.md'']) then None
          else (case parse_summary root (book_src @ [''SUMMARY.md'']) of
                  Inl _ \<Rightarrow> None
                | Inr summary_files \<Rightarrow> Some (find_dead_pages root book_src summary_files)))"

section \<open>Example trees\<close>

text \<open>
  The tree of the specification's scenarios: the script at
  \<^verbatim>\<open>/proj/qa/book/dead_pages.py\<close>, the book at \<^verbatim>\<open>/proj/book/src\<close> with
  \<^verbatim>\<open>intro.md\<close>, \<^verbatim>\<open>guide/start.md\<close> and \<^verbatim>\<open>orphan.md\<close>, and a table of contents with
  the given text.
\<close>

definition scenario_tree :: "string \<Rightarrow> node" where
  "scenario_tree summary_text =
     Dir [(''proj'', Dir [
       (''qa'', Dir [(''book'', Dir [(''dead_pages.py'', File [])])]),
       (''book'', Dir [(''src'', Dir [
          (''SUMMARY.md'', File summary_text),
          (''intro.md'', File []),
          (''guide'', Dir [(''start.md'', File [])]),
          (''orphan.md'', File [])])])])]"

definition scenario_script :: path where
  "scenario_script = [''proj'', ''qa'', ''book'', ''dead_pages.py'']"

definition scenario_src :: path where
  "scenario_src = [''proj'', ''book'', ''src'']"

definition scenario_summary :: path where
  "scenario_summary = [''proj'', ''book'', ''src'', ''SUMMARY.md'']"

text \<open>Scenario C: the script is installed, \<^verbatim>\<open>/proj/book\<close> does not exist.\<close>

definition no_book_tree :: node where
  "no_book_tree = Dir [(''proj'', Dir [(''qa'', Dir [(''book'', Dir [(''dead_pages.py'', File [])])])])]"

text \<open>A book whose \<^verbatim>\<open>out.md\<close> is a symbolic link to \<^verbatim>\<open>/etc/passwd\<close>, which is absent.\<close>

definition outside_link_tree :: node where
  "outside_link_tree =
     Dir [(''proj'', Dir [
       (''qa'', Dir [(''book'', Dir [(''dead_pages.py'', File [])])]),
       (''book'', Dir [(''src'', Dir [
          (''SUMMARY.md'', File []),
          (''out.md'', Link [''etc'', ''passwd''])])])])]"

text \<open>A book whose \<^verbatim>\<open>toc.md\<close> is a symbolic link to its own \<^verbatim>\<open>SUMMARY.md\<close>.\<close>

definition toc_alias_tree :: node where
  "toc_alias_tree =
     Dir [(''proj'', Dir [
       (''qa'', Dir [(''book'', Dir [(''dead_pages.py'', File [])])]),
       (''book'', Dir [(''src'', Dir [
          (''SUMMARY.md'', File []),
          (''toc.md'', Link [''proj'', ''book'', ''src'', ''SUMMARY.md''])])])])]"


text \<open>
  The order in which a directory's entries are enumerated is not part of the tree on
  disk. \<open>order_normal\<close> lists every directory by name, so two values of \<open>node\<close>
  describe the same tree exactly when their normal forms are equal.
\<close>

fun order_normal :: "node \<Rightarrow> node" where
  "order_normal (Dir kids) = Dir (sort_key fst (map (\<lambda>e. (fst e, order_normal (snd e))) kids))"
| "order_normal (File c) = File c"
| "order_normal (Link t) = Link t"

text \<open>The scenario tree with its directories enumerated in another order.\<close>

definition scenario_tree_reordered :: "string \<Rightarrow> node" where
  "scenario_tree_reordered summary_text =
     Dir [(''proj'', Dir [
       (''book'', Dir [(''src'', Dir [
          (''orphan.md'', File []),
          (''guide'', Dir [(''start.md'', File [])]),
          (''intro.md'', File []),
          (''SUMMARY.md'', File summary_text)])]),
       (''qa'', Dir [(''book'', Dir [(''dead_pages.py'', File [])])])])]"

section \<open>Facts about the link scan\<close>

lemma finditer_Nil: "finditer [] = []"
  by (simp add: finditer.simps)

lemma finditer_match: "match_link s = Some (t, r) \<Longrightarrow> finditer s = t # finditer r"
proof -
  assume m: "match_link s = Some (t, r)"
  then have "s \<noteq> []" by (auto simp: match_link_def)
  with m show ?thesis by (subst finditer.simps) simp
qed

lemma run_until_hit:
  "xs \<noteq> [] \<Longrightarrow> stop \<notin> set xs \<Longrightarrow> run_until stop (xs @ stop # r) = Some (xs, r)"
proof -
  assume ne: "xs \<noteq> []" and ns: "stop \<notin> set xs"
  have t: "takeWhile (\<lambda>x. x \<noteq> stop) (xs @ stop # r) = xs"
    using ns by (induction xs) auto
  have d: "dropWhile (\<lambda>x. x \<noteq> stop) (xs @ stop # r) = stop # r"
    using ns by (induction xs) auto
  show ?thesis using ne by (simp add: run_until_def t d)
qed

lemma match_link_hit:
  assumes "l \<noteq> []" "CHR '']'' \<notin> set l" "g \<noteq> []" "CHR '')'' \<notin> set g"
  shows "match_link (CHR ''['' # l @ '']('' @ g @ CHR '')'' # r) = Some (g, r)"
proof -
  have 1: "run_until CHR '']'' (l @ CHR '']'' # CHR ''('' # g @ CHR '')'' # r)
           = Some (l, CHR ''('' # g @ CHR '')'' # r)"
    using assms(1,2) by (rule run_until_hit)
  have 2: "run_until CHR '')'' (g @ CHR '')'' # r) = Some (g, r)"
    using assms(3,4) by (rule run_until_hit)
  show ?thesis by (simp add: match_link_def 1 2)
qed

lemma finditer_single:
  assumes "l \<noteq> []" "CHR '']'' \<notin> set l" "g \<noteq> []" "CHR '')'' \<notin> set g"
  shows "finditer (CHR ''['' # l @ '']('' @ g @ '')'') = [g]"
  using match_link_hit [OF assms, of "[]"] by (simp add: finditer_match finditer_Nil)

section \<open>The reference set\<close>

text \<open>
  The loop of \<^verbatim>\<open>parse_summary\<close> adds, to whatever it has collected, the canonical paths
  of the matched targets that survive anchor stripping and the two \<^verbatim>\<open>continue\<close>s.
\<close>

lemma fold_add_link:
  "fold (add_link root sp) gs A =
     A \<union> (\<lambda>t. resolve root (joinpath (parent sp) t)) `
           {t \<in> strip_anchor ` set gs. \<not> is_external t \<and> t \<noteq> []}"
proof (induction gs arbitrary: A)
  case Nil
  show ?case by simp
next
  case (Cons g gs)
  show ?case
    unfolding fold_Cons comp_def Cons.IH
    by (auto simp: add_link_def Let_def)
qed

lemma parse_content_image:
  "parse_content root sp content =
     (\<lambda>t. resolve root (joinpath (parent sp) t)) `
        {t \<in> strip_anchor ` set (finditer content). \<not> is_external t \<and> t \<noteq> []}"
  by (simp add: parse_content_def fold_add_link)

text \<open>
  C10. \<^verbatim>\<open>parse_summary\<close> has no filter on the file extension: for the table of contents
  \<^verbatim>\<open>[pic](images/pic.png)\<close> the returned set holds \<^verbatim>\<open>/proj/book/src/images/pic.png\<close>,
  whose name does not end in \<^verbatim>\<open>.md\<close>.
\<close>

theorem parse_summary_no_extension_filter:
  "parse_summary (scenario_tree ''[pic](images/pic.png)'') scenario_summary
     = Inr {[''proj'', ''book'', ''src'', ''images'', ''pic.png'']}
   \<and> \<not> ends_md (name [''proj'', ''book'', ''src'', ''images'', ''pic.png''])"
  by code_simp

text \<open>
  C5. Whenever the table of contents can be read, the set returned by
  \<^verbatim>\<open>parse_summary\<close> consists of exactly the canonical paths of those matched targets
  that, after anchor stripping, are non-empty and start with none of \<^verbatim>\<open>http://\<close>,
  \<^verbatim>\<open>https://\<close>, \<^verbatim>\<open>mailto:\<close>: a target with such a prefix contributes nothing.
\<close>

theorem parse_summary_discards_external:
  assumes "read_text root sp = Inr content"
  shows "parse_summary root sp =
           Inr ((\<lambda>t. resolve root (joinpath (parent sp) t)) `
                  {t \<in> strip_anchor ` set (finditer content).
                     \<not> (startswith t ''http://'' \<or> startswith t ''https://''
                        \<or> startswith t ''mailto:'') \<and> t \<noteq> []})"
  using assms by (simp add: parse_summary_def parse_content_image is_external_def)

theorem parse_summary_discards_external_witness:
  "read_text (scenario_tree ''[x](https://example.com/x.md) [i](intro.md)'') scenario_summary
       = Inr ''[x](https://example.com/x.md) [i](intro.md)''
   \<and> parse_summary (scenario_tree ''[x](https://example.com/x.md) [i](intro.md)'') scenario_summary
       = Inr {[''proj'', ''book'', ''src'', ''intro.md'']}"
proof -
  have r: "read_text (scenario_tree ''[x](https://example.com/x.md) [i](intro.md)'') scenario_summary
       = Inr ''[x](https://example.com/x.md) [i](intro.md)''"
    by code_simp
  have "parse_summary (scenario_tree ''[x](https://example.com/x.md) [i](intro.md)'') scenario_summary
       = Inr {[''proj'', ''book'', ''src'', ''intro.md'']}"
    unfolding parse_summary_discards_external [OF r]
    by code_simp
  with r show ?thesis by simp
qed

lemma strip_anchor_hit: "CHR ''#'' \<notin> set t \<Longrightarrow> strip_anchor (t @ CHR ''#'' # f) = t"
proof -
  assume ns: "CHR ''#'' \<notin> set t"
  have "takeWhile (\<lambda>x. x \<noteq> CHR ''#'') (t @ CHR ''#'' # f) = t"
    using ns by (induction t) auto
  then show ?thesis by (simp add: strip_anchor_def)
qed

lemma strip_anchor_none: "CHR ''#'' \<notin> set t \<Longrightarrow> strip_anchor t = t"
  by (simp add: strip_anchor_def)

text \<open>
  C6. Everything from the first \<^verbatim>\<open>#\<close> of a matched target onward is dropped before the
  target is resolved: the target \<open>t#f\<close> and the target \<open>t\<close> make the same loop step
  whatever has been collected so far, and a table of contents holding the one link
  yields the same set as one holding the other.
\<close>

theorem anchor_variant_same_reference:
  assumes "CHR ''#'' \<notin> set t" "t \<noteq> []" "CHR '')'' \<notin> set t" "CHR '')'' \<notin> set f"
    and "l \<noteq> []" "CHR '']'' \<notin> set l"
  shows "strip_anchor (t @ CHR ''#'' # f) = t
       \<and> add_link root sp (t @ CHR ''#'' # f) files = add_link root sp t files
       \<and> parse_content root sp (CHR ''['' # l @ '']('' @ (t @ CHR ''#'' # f) @ '')'')
           = parse_content root sp (CHR ''['' # l @ '']('' @ t @ '')'')"
proof -
  have s1: "strip_anchor (t @ CHR ''#'' # f) = t" using assms(1) by (rule strip_anchor_hit)
  have s2: "strip_anchor t = t" using assms(1) by (rule strip_anchor_none)
  have a: "add_link root sp (t @ CHR ''#'' # f) files = add_link root sp t files" for files
    by (simp add: add_link_def s1 s2)
  have f1: "finditer (CHR ''['' # l @ '']('' @ (t @ CHR ''#'' # f) @ '')'') = [t @ CHR ''#'' # f]"
    using assms by (intro finditer_single) auto
  have f2: "finditer (CHR ''['' # l @ '']('' @ t @ '')'') = [t]"
    using assms by (intro finditer_single) auto
  have "parse_content root sp (CHR ''['' # l @ '']('' @ (t @ CHR ''#'' # f) @ '')'')
           = parse_content root sp (CHR ''['' # l @ '']('' @ t @ '')'')"
    unfolding parse_content_def f1 f2 by (simp add: a)
  with s1 a show ?thesis by simp
qed

theorem anchor_variant_same_reference_witness:
  "CHR ''#'' \<notin> set ''./foo.md'' \<and> ''./foo.md'' \<noteq> [] \<and> CHR '')'' \<notin> set ''./foo.md''
   \<and> CHR '')'' \<notin> set ''section-2'' \<and> ''Foo'' \<noteq> [] \<and> CHR '']'' \<notin> set ''Foo''
   \<and> strip_anchor ''./foo.md#section-2'' = ''./foo.md''
   \<and> parse_content (scenario_tree []) scenario_summary ''[Foo](./foo.md#section-2)''
       = parse_content (scenario_tree []) scenario_summary ''[Foo](./foo.md)''
   \<and> parse_content (scenario_tree []) scenario_summary ''[Foo](./foo.md)''
       = {[''proj'', ''book'', ''src'', ''foo.md'']}"
proof -
  have e: "parse_content (scenario_tree []) scenario_summary ''[Foo](./foo.md)''
       = {[''proj'', ''book'', ''src'', ''foo.md'']}"
    by code_simp
  show ?thesis
    using anchor_variant_same_reference [of "''./foo.md''" "''section-2''" "''Foo''"
        "scenario_tree []" scenario_summary "{}"] e
    by simp
qed

lemma absolute_kept: "is_absolute t \<Longrightarrow> \<not> is_external t \<and> t \<noteq> []"
  by (cases t) (auto simp: is_absolute_def is_external_def startswith_def)

text \<open>
  C9. For a matched target that is absolute after anchor stripping, joining it onto the
  directory of the table of contents gives the target's own components, the loop step
  inserts the canonical form of that absolute path, and this path is in the set returned
  for any location of the table of contents.
\<close>

theorem absolute_target_bypasses_summary_dir:
  assumes "g \<in> set (finditer content)" "is_absolute (strip_anchor g)"
  shows "joinpath (parent sp) (strip_anchor g) = path_parts (strip_anchor g)
       \<and> add_link root sp g files = insert (resolve root (path_parts (strip_anchor g))) files
       \<and> resolve root (path_parts (strip_anchor g)) \<in> parse_content root sp content"
proof -
  have j: "joinpath (parent sp) (strip_anchor g) = path_parts (strip_anchor g)"
    using assms(2) by (simp add: joinpath_def)
  have k: "\<not> is_external (strip_anchor g) \<and> strip_anchor g \<noteq> []"
    using assms(2) by (rule absolute_kept)
  have a: "add_link root sp g files = insert (resolve root (path_parts (strip_anchor g))) files"
    using k by (simp add: add_link_def Let_def j)
  have "resolve root (joinpath (parent sp) (strip_anchor g)) \<in> parse_content root sp content"
    unfolding parse_content_image using assms(1) k by blast
  with j a show ?thesis by simp
qed

theorem absolute_target_bypasses_summary_dir_witness:
  "''/proj/book/src/intro.md'' \<in> set (finditer ''[a](/proj/book/src/intro.md)'')
   \<and> is_absolute (strip_anchor ''/proj/book/src/intro.md'')
   \<and> joinpath (parent [''elsewhere'', ''docs'', ''SUMMARY.md'']) (strip_anchor ''/proj/book/src/intro.md'')
       = [''proj'', ''book'', ''src'', ''intro.md'']
   \<and> [''proj'', ''book'', ''src'', ''intro.md'']
       \<in> parse_content (scenario_tree []) [''elsewhere'', ''docs'', ''SUMMARY.md'']
            ''[a](/proj/book/src/intro.md)''"
proof -
  have m: "''/proj/book/src/intro.md'' \<in> set (finditer ''[a](/proj/book/src/intro.md)'')"
    by code_simp
  have b: "is_absolute (strip_anchor ''/proj/book/src/intro.md'')"
    by code_simp
  have p: "path_parts (strip_anchor ''/proj/book/src/intro.md'') = [''proj'', ''book'', ''src'', ''intro.md'']"
    by code_simp
  have r: "resolve (scenario_tree []) [''proj'', ''book'', ''src'', ''intro.md'']
             = [''proj'', ''book'', ''src'', ''intro.md'']"
    by code_simp
  show ?thesis
    using absolute_target_bypasses_summary_dir [OF m b,
        of "[''elsewhere'', ''docs'', ''SUMMARY.md'']" "scenario_tree []" "{}"] m b
    unfolding p r by simp
qed

section \<open>Exit status and error reports\<close>


lemma lookup_append:
  "lookup n (p @ q) = (case lookup n p of None \<Rightarrow> None | Some k \<Rightarrow> lookup k q)"
proof (induction p arbitrary: n)
  case Nil
  show ?case by simp
next
  case (Cons c cs)
  show ?case
  proof (cases n)
    case (Dir kids)
    then show ?thesis using Cons.IH by (simp split: option.splits)
  qed simp_all
qed

lemma realpath_from_append:
  "realpath_from root acc (xs @ ys) = realpath_from root (realpath_from root acc xs) ys"
  by (induction xs arbitrary: acc) (simp_all split: option.splits node.splits)

lemma resolve_snoc:
  "c \<noteq> ''..'' \<Longrightarrow>
   resolve root (p @ [c]) =
     (case lookup root (resolve root p @ [c]) of
        Some (Link t) \<Rightarrow> t
      | _ \<Rightarrow> resolve root p @ [c])"
  by (simp add: resolve_def realpath_from_append split: option.splits node.splits)

lemma file_has_no_child:
  assumes "exists_path root b" "\<not> is_dir root b" "c \<noteq> ''..''"
  shows "\<not> exists_path root (b @ [c])"
proof -
  from assms(1,2) obtain x where f: "lookup root (resolve root b) = Some (File x)"
    by (auto simp: exists_path_def is_dir_def split: option.splits node.splits)
  have l: "lookup root (resolve root b @ [c]) = None"
    by (simp add: lookup_append f)
  have "resolve root (b @ [c]) = resolve root b @ [c]"
    using assms(3) by (simp add: resolve_snoc l)
  then show ?thesis by (simp add: exists_path_def l)
qed

lemma path_str_snoc: "p \<noteq> [] \<Longrightarrow> path_str (p @ [c]) = path_str p @ ''/'' @ c"
proof -
  have "p \<noteq> [] \<Longrightarrow> join_slash (p @ [c]) = join_slash p @ ''/'' @ c"
    by (induction p rule: join_slash.induct) simp_all
  then show "p \<noteq> [] \<Longrightarrow> path_str (p @ [c]) = path_str p @ ''/'' @ c"
    by (simp add: path_str_def)
qed

text \<open>
  C3. When the computed book source \<^verbatim>\<open><script dir>/../../book/src\<close> is not a
  directory, \<^verbatim>\<open>main\<close> prints nothing to standard output, prints one line to standard
  error that starts with \<^verbatim>\<open>Error:\<close> and contains the attempted path, and returns 1; no
  exception escapes. When the path does not exist at all, \<^verbatim>\<open>find_book_src\<close> raises
  \<^verbatim>\<open>FileNotFoundError\<close> with the path in its message; when it exists as a regular file,
  the missing \<^verbatim>\<open>SUMMARY.md\<close> below it is what is reported.
\<close>

theorem missing_book_root_reported:
  assumes "book_src = parent (parent (parent (resolve root script_file))) @ [''book'', ''src'']"
    and "\<not> is_dir root book_src"
  shows "main root script_file =
           (\<lparr>stdout = [],
             stderr = [''Error: '' @
                (if exists_path root book_src
                 then ''SUMMARY.md not found at '' @ path_str book_src @ ''/SUMMARY.md''
                 else ''Book source directory not found at '' @ path_str book_src)]\<rparr>,
            Inr 1)
       \<and> exit_status (snd (main root script_file)) = 1
       \<and> (\<not> exists_path root book_src \<longrightarrow>
            find_book_src root script_file =
              Inl (FileNotFoundError (''Book source directory not found at '' @ path_str book_src)))"
proof (cases "exists_path root book_src")
  case False
  then have f: "find_book_src root script_file =
      Inl (FileNotFoundError (''Book source directory not found at '' @ path_str book_src))"
    using assms(1) by (simp add: find_book_src_def Let_def)
  then show ?thesis using False
    by (simp add: main_def print_err_def exit_status_def)
next
  case True
  then have f: "find_book_src root script_file = Inr book_src"
    using assms(1) by (simp add: find_book_src_def Let_def)
  have n: "\<not> exists_path root (book_src @ [''SUMMARY.md''])"
    using True assms(2) by (rule file_has_no_child) simp
  have ne: "book_src \<noteq> []" using assms(1) by simp
  show ?thesis using True f n
    by (simp add: main_def print_err_def exit_status_def path_str_snoc [OF ne])
qed

theorem missing_book_root_reported_witness:
  "scenario_src = parent (parent (parent (resolve no_book_tree scenario_script))) @ [''book'', ''src'']
   \<and> \<not> is_dir no_book_tree scenario_src
   \<and> main no_book_tree scenario_script =
        (\<lparr>stdout = [], stderr = [''Error: Book source directory not found at /proj/book/src'']\<rparr>,
         Inr 1)"
proof -
  have a: "scenario_src = parent (parent (parent (resolve no_book_tree scenario_script))) @ [''book'', ''src'']"
    by code_simp
  have b: "\<not> is_dir no_book_tree scenario_src"
    by code_simp
  have c: "\<not> exists_path no_book_tree scenario_src"
    by code_simp
  have d: "path_str scenario_src = ''/proj/book/src''"
    by code_simp
  show ?thesis
    using missing_book_root_reported [OF a b] a b c d by simp
qed





section \<open>The dead-page list\<close>

lemma fold_dead_step:
  "fold (dead_step root refs) es acc =
     acc @ map (resolve root) (filter (\<lambda>p. name p \<noteq> ''SUMMARY.md'' \<and> resolve root p \<notin> refs) es)"
  by (induction es arbitrary: acc) (simp_all add: dead_step_def Let_def)

lemma dead_of_entries_sort:
  "dead_of_entries root refs es =
     sort (map (resolve root) (filter (\<lambda>p. name p \<noteq> ''SUMMARY.md'' \<and> resolve root p \<notin> refs) es))"
  by (simp add: dead_of_entries_def fold_dead_step)

lemma walk_below: "q \<in> set (walk p kids) \<Longrightarrow> \<exists>rel. rel \<noteq> [] \<and> q = p @ rel"
proof (induction p kids rule: walk.induct)
  case (4 p n kids rest)
  from "4.prems" consider "q = p @ [n]" | "q \<in> set (walk (p @ [n]) kids)" | "q \<in> set (walk p rest)"
    by auto
  then show ?case
  proof cases
    case 1
    then show ?thesis by blast
  next
    case 2
    then obtain rel where "q = (p @ [n]) @ rel" using "4.IH"(1) by blast
    then have "n # rel \<noteq> [] \<and> q = p @ (n # rel)" by simp
    then show ?thesis by blast
  next
    case 3
    then show ?thesis using "4.IH"(2) by blast
  qed
qed auto

lemma rglob_md_entry:
  "p \<in> set (rglob_md root b) \<Longrightarrow> ends_md (name p) \<and> (\<exists>rel. rel \<noteq> [] \<and> p = b @ rel)"
  by (auto simp: rglob_md_def dest: walk_below split: option.splits node.splits)

lemma find_dead_pages_sort:
  "find_dead_pages root b refs =
     sort (map (resolve root)
             (filter (\<lambda>p. name p \<noteq> ''SUMMARY.md'' \<and> resolve root p \<notin> refs) (rglob_md root b)))"
  by (simp add: find_dead_pages_def dead_of_entries_sort)

text \<open>
  C1. The claim is what the docstring of \<^verbatim>\<open>find_dead_pages\<close> promises (markdown files
  that exist), and the code breaks it: in a book whose \<^verbatim>\<open>out.md\<close> is a symbolic link
  leaving the book, the returned list holds the link's target \<^verbatim>\<open>/etc/passwd\<close>, which is
  not below the book source, has no \<^verbatim>\<open>.md\<close> name and does not exist; \<^verbatim>\<open>main\<close> then
  ends with the \<^verbatim>\<open>ValueError\<close> of \<^verbatim>\<open>relative_to\<close>.
\<close>

theorem find_dead_pages_lists_link_target:
  "parse_summary outside_link_tree scenario_summary = Inr {}
   \<and> find_dead_pages outside_link_tree scenario_src {} = [[''etc'', ''passwd'']]
   \<and> \<not> exists_path outside_link_tree [''etc'', ''passwd'']
   \<and> \<not> ends_md (name [''etc'', ''passwd''])
   \<and> take (length scenario_src) [''etc'', ''passwd''] \<noteq> scenario_src
   \<and> snd (main outside_link_tree scenario_script) = Inl ValueError"
  by code_simp

text \<open>
  What the loop does compute: the sorted list of the canonical paths of the walked
  entries it keeps, one occurrence per kept entry.
\<close>

lemma mset_find_dead_pages:
  "mset (find_dead_pages root b refs) =
     image_mset (resolve root)
       (filter_mset (\<lambda>p. name p \<noteq> ''SUMMARY.md'' \<and> resolve root p \<notin> refs)
          (mset (rglob_md root b)))"
  by (simp add: find_dead_pages_sort)

lemma find_dead_pages_elements:
  "sorted (find_dead_pages root b refs)
   \<and> set (find_dead_pages root b refs)
       = resolve root ` {p \<in> set (rglob_md root b). name p \<noteq> ''SUMMARY.md''} - refs
   \<and> (\<forall>e \<in> set (find_dead_pages root b refs).
        \<exists>p rel. e = resolve root p \<and> p \<in> set (rglob_md root b) \<and> ends_md (name p)
                \<and> rel \<noteq> [] \<and> p = b @ rel)
   \<and> ((\<forall>p \<in> set (rglob_md root b). resolve root p = p) \<longrightarrow>
        (\<forall>e \<in> set (find_dead_pages root b refs).
           e \<in> set (rglob_md root b) \<and> ends_md (name e) \<and> (\<exists>rel. rel \<noteq> [] \<and> e = b @ rel)))"
proof -
  have 1: "sorted (find_dead_pages root b refs)" by (simp add: find_dead_pages_sort)
  have 2: "set (find_dead_pages root b refs)
       = resolve root ` {p \<in> set (rglob_md root b). name p \<noteq> ''SUMMARY.md''} - refs"
    by (auto simp: find_dead_pages_sort)
  have 3: "\<forall>e \<in> set (find_dead_pages root b refs).
        \<exists>p rel. e = resolve root p \<and> p \<in> set (rglob_md root b) \<and> ends_md (name p)
                \<and> rel \<noteq> [] \<and> p = b @ rel"
  proof
    fix e assume "e \<in> set (find_dead_pages root b refs)"
    then obtain p where p: "p \<in> set (rglob_md root b)" "e = resolve root p"
      by (auto simp: find_dead_pages_sort)
    from rglob_md_entry [OF p(1)] p show "\<exists>p rel. e = resolve root p \<and> p \<in> set (rglob_md root b) \<and> ends_md (name p)
                \<and> rel \<noteq> [] \<and> p = b @ rel" by blast
  qed
  have 4: "(\<forall>p \<in> set (rglob_md root b). resolve root p = p) \<longrightarrow>
        (\<forall>e \<in> set (find_dead_pages root b refs).
           e \<in> set (rglob_md root b) \<and> ends_md (name e) \<and> (\<exists>rel. rel \<noteq> [] \<and> e = b @ rel))"
  proof (intro impI ballI)
    fix e
    assume h: "\<forall>p \<in> set (rglob_md root b). resolve root p = p"
      and "e \<in> set (find_dead_pages root b refs)"
    then obtain p where p: "p \<in> set (rglob_md root b)" "e = resolve root p"
      by (auto simp: find_dead_pages_sort)
    with h have "e = p" by simp
    with p(1) rglob_md_entry [OF p(1)]
    show "e \<in> set (rglob_md root b) \<and> ends_md (name e) \<and> (\<exists>rel. rel \<noteq> [] \<and> e = b @ rel)"
      by simp
  qed
  from 1 2 3 4 show ?thesis by blast
qed

text \<open>
  C7. The claim is what the comment in the loop says (\<^verbatim>\<open>Skip SUMMARY.md itself\<close>), and the
  code breaks it: the name is tested on the walked entry and the canonical path is
  appended, so when \<^verbatim>\<open>toc.md\<close> is a symbolic link to \<^verbatim>\<open>SUMMARY.md\<close> and the table of
  contents does not mention it, the list holds \<^verbatim>\<open>SUMMARY.md\<close> and \<^verbatim>\<open>main\<close> prints it as
  a dead page.
\<close>

theorem find_dead_pages_lists_summary_alias:
  "parse_summary toc_alias_tree scenario_summary = Inr {}
   \<and> find_dead_pages toc_alias_tree scenario_src {} = [[''proj'', ''book'', ''src'', ''SUMMARY.md'']]
   \<and> name [''proj'', ''book'', ''src'', ''SUMMARY.md''] = ''SUMMARY.md''
   \<and> last (stdout (fst (main toc_alias_tree scenario_script))) = ''  SUMMARY.md''
   \<and> snd (main toc_alias_tree scenario_script) = Inr 1"
  by code_simp

text \<open>Walked entries that are themselves named \<^verbatim>\<open>SUMMARY.md\<close> are skipped.\<close>

lemma summary_entries_skipped:
  "(name p = ''SUMMARY.md'' \<longrightarrow> dead_step root refs p dead = dead)
   \<and> find_dead_pages root b refs
       = dead_of_entries root refs (filter (\<lambda>p. name p \<noteq> ''SUMMARY.md'') (rglob_md root b))
   \<and> (\<forall>e \<in> set (find_dead_pages root b refs).
         \<exists>q \<in> set (rglob_md root b). name q \<noteq> ''SUMMARY.md'' \<and> e = resolve root q)
   \<and> ((\<forall>q \<in> set (rglob_md root b). name (resolve root q) = name q) \<longrightarrow>
        (\<forall>e \<in> set (find_dead_pages root b refs). name e \<noteq> ''SUMMARY.md''))"
proof -
  have 1: "name p = ''SUMMARY.md'' \<longrightarrow> dead_step root refs p dead = dead"
    by (simp add: dead_step_def)
  have 2: "find_dead_pages root b refs
       = dead_of_entries root refs (filter (\<lambda>p. name p \<noteq> ''SUMMARY.md'') (rglob_md root b))"
    by (simp add: find_dead_pages_sort dead_of_entries_sort conj_commute conj_left_commute)
  have 3: "\<forall>e \<in> set (find_dead_pages root b refs).
         \<exists>q \<in> set (rglob_md root b). name q \<noteq> ''SUMMARY.md'' \<and> e = resolve root q"
    by (auto simp: find_dead_pages_sort)
  have 4: "(\<forall>q \<in> set (rglob_md root b). name (resolve root q) = name q) \<longrightarrow>
        (\<forall>e \<in> set (find_dead_pages root b refs). name e \<noteq> ''SUMMARY.md'')"
    using 3 by metis
  from 1 2 3 4 show ?thesis by blast
qed

section \<open>Size of the reference set\<close>

lemma parse_content_targets:
  "parse_content root sp content =
     (\<lambda>t. resolve root (joinpath (parent sp) t)) ` set (link_targets content)"
  by (auto simp: parse_content_image link_targets_def)

text \<open>
  C4, as stated, fails: \<^verbatim>\<open>foo.md\<close> and \<^verbatim>\<open>./foo.md\<close> are two distinct targets after
  anchor stripping and exclusion of external links, and the returned set has one
  element.
\<close>

theorem distinct_targets_collapse_counterexample:
  "link_targets ''[a](foo.md) [b](./foo.md)'' = [''foo.md'', ''./foo.md'']
   \<and> card (set (link_targets ''[a](foo.md) [b](./foo.md)'')) = 2
   \<and> parse_content (scenario_tree []) scenario_summary ''[a](foo.md) [b](./foo.md)''
        = {[''proj'', ''book'', ''src'', ''foo.md'']}
   \<and> card (parse_content (scenario_tree []) scenario_summary ''[a](foo.md) [b](./foo.md)'') = 1"
  by code_simp

text \<open>
  C4 (amended). The returned set is the image of the retained targets under joining and
  canonicalization: it has at most as many elements as there are distinct retained
  targets, and exactly as many when distinct retained targets canonicalize to distinct
  paths. Repeated targets and anchor variants of one target are one retained target.
\<close>

theorem reference_set_size:
  "parse_content root sp content
     = (\<lambda>t. resolve root (joinpath (parent sp) t)) ` set (link_targets content)
   \<and> card (parse_content root sp content) \<le> card (set (link_targets content))
   \<and> (inj_on (\<lambda>t. resolve root (joinpath (parent sp) t)) (set (link_targets content))
        \<longrightarrow> card (parse_content root sp content) = card (set (link_targets content)))"
proof -
  have 1: "parse_content root sp content
     = (\<lambda>t. resolve root (joinpath (parent sp) t)) ` set (link_targets content)"
    by (rule parse_content_targets)
  have 2: "card (parse_content root sp content) \<le> card (set (link_targets content))"
    unfolding 1 by (rule card_image_le) simp
  have 3: "inj_on (\<lambda>t. resolve root (joinpath (parent sp) t)) (set (link_targets content))
        \<longrightarrow> card (parse_content root sp content) = card (set (link_targets content))"
    unfolding 1 by (simp add: card_image)
  from 1 2 3 show ?thesis by blast
qed

theorem reference_set_size_witness:
  "link_targets ''[a](foo.md) [b](bar.md#x) [c](foo.md#y) [d](bar.md)''
     = [''foo.md'', ''bar.md'', ''foo.md'', ''bar.md'']
   \<and> inj_on (\<lambda>t. resolve (scenario_tree []) (joinpath (parent scenario_summary) t))
         (set (link_targets ''[a](foo.md) [b](bar.md#x) [c](foo.md#y) [d](bar.md)''))
   \<and> card (set (link_targets ''[a](foo.md) [b](bar.md#x) [c](foo.md#y) [d](bar.md)'')) = 2
   \<and> card (parse_content (scenario_tree []) scenario_summary
               ''[a](foo.md) [b](bar.md#x) [c](foo.md#y) [d](bar.md)'') = 2"
proof -
  have l: "link_targets ''[a](foo.md) [b](bar.md#x) [c](foo.md#y) [d](bar.md)''
     = [''foo.md'', ''bar.md'', ''foo.md'', ''bar.md'']"
    by code_simp
  have f: "resolve (scenario_tree []) (joinpath (parent scenario_summary) ''foo.md'')
             = [''proj'', ''book'', ''src'', ''foo.md'']"
    by code_simp
  have b: "resolve (scenario_tree []) (joinpath (parent scenario_summary) ''bar.md'')
             = [''proj'', ''book'', ''src'', ''bar.md'']"
    by code_simp
  have i: "inj_on (\<lambda>t. resolve (scenario_tree []) (joinpath (parent scenario_summary) t))
         (set (link_targets ''[a](foo.md) [b](bar.md#x) [c](foo.md#y) [d](bar.md)''))"
  proof -
    have s: "set [''foo.md'', ''bar.md'', ''foo.md'', ''bar.md''] = {''foo.md'', ''bar.md''}"
      by auto
    show ?thesis unfolding l s by (rule inj_onI) (auto simp: f b)
  qed
  have c: "card (set (link_targets ''[a](foo.md) [b](bar.md#x) [c](foo.md#y) [d](bar.md)'')) = 2"
    by code_simp
  from reference_set_size [of "scenario_tree []" scenario_summary
             "''[a](foo.md) [b](bar.md#x) [c](foo.md#y) [d](bar.md)''"] i
  have "card (parse_content (scenario_tree []) scenario_summary
               ''[a](foo.md) [b](bar.md#x) [c](foo.md#y) [d](bar.md)'')
        = card (set (link_targets ''[a](foo.md) [b](bar.md#x) [c](foo.md#y) [d](bar.md)''))"
    by blast
  then have k: "card (parse_content (scenario_tree []) scenario_summary
               ''[a](foo.md) [b](bar.md#x) [c](foo.md#y) [d](bar.md)'') = 2"
    by (simp only: c)
  show ?thesis by (intro conjI l i c k)
qed

section \<open>Independence of the enumeration order\<close>

lemma map_of_insort_key_at:
  "map_of (insort_key fst x xs) k = map_of (x # xs) k"
proof (induction xs)
  case Nil
  show ?case by simp
next
  case (Cons y ys)
  show ?case
  proof (cases "fst x \<le> fst y")
    case True
    then show ?thesis by simp
  next
    case False
    then have ne: "fst y \<noteq> fst x" by auto
    have "map_of (insort_key fst x (y # ys)) k = map_of (y # insort_key fst x ys) k"
      using False by simp
    also have "\<dots> = (if k = fst y then Some (snd y) else map_of (x # ys) k)"
      using Cons.IH by (cases y) simp
    also have "\<dots> = map_of (x # y # ys) k"
      using ne by (cases x; cases y) auto
    finally show ?thesis .
  qed
qed

lemma map_of_insort_key: "map_of (insort_key fst x xs) = map_of (x # xs)"
  by (rule ext) (rule map_of_insort_key_at)

lemma map_of_sort_key: "map_of (sort_key fst xs) = map_of xs"
proof (induction xs)
  case Nil
  show ?case by simp
next
  case (Cons x xs)
  have "map_of (sort_key fst (x # xs)) = map_of (x # sort_key fst xs)"
    by (simp add: map_of_insort_key)
  also have "\<dots> = map_of (x # xs)"
    by (cases x) (simp add: Cons.IH)
  finally show ?case .
qed

lemma map_of_order_normal_kids:
  "map_of (map (\<lambda>e. (fst e, order_normal (snd e))) kids) c = map_option order_normal (map_of kids c)"
  by (induction kids) auto

lemma lookup_order_normal: "lookup (order_normal n) p = map_option order_normal (lookup n p)"
proof (induction p arbitrary: n)
  case Nil
  show ?case by simp
next
  case (Cons c cs)
  show ?case
  proof (cases n)
    case (Dir kids)
    then show ?thesis
      by (simp add: map_of_sort_key map_of_order_normal_kids Cons.IH split: option.splits)
  qed simp_all
qed

lemma order_normal_Link: "order_normal k = Link t \<longleftrightarrow> k = Link t"
  by (cases k) auto

lemma order_normal_File: "order_normal k = File c \<longleftrightarrow> k = File c"
  by (cases k) auto

lemma order_normal_Dir: "(\<exists>ks. order_normal k = Dir ks) \<longleftrightarrow> (\<exists>ks. k = Dir ks)"
  by (cases k) auto

lemma lookup_order_normal_Link:
  "lookup (order_normal root) p = Some (Link t) \<longleftrightarrow> lookup root p = Some (Link t)"
  by (cases "lookup root p") (auto simp: lookup_order_normal order_normal_Link)

lemma realpath_from_order_normal:
  "realpath_from (order_normal root) acc p = realpath_from root acc p"
proof (induction p arbitrary: acc)
  case Nil
  show ?case by simp
next
  case (Cons c cs)
  show ?case
  proof (cases "c = ''..''")
    case True
    then show ?thesis by (simp add: Cons.IH)
  next
    case False
    show ?thesis
    proof (cases "\<exists>t. lookup root (acc @ [c]) = Some (Link t)")
      case True
      then obtain t where t: "lookup root (acc @ [c]) = Some (Link t)" by blast
      then have "lookup (order_normal root) (acc @ [c]) = Some (Link t)"
        by (simp add: lookup_order_normal_Link)
      with t False show ?thesis by (simp add: Cons.IH)
    next
      case nl: False
      then have a: "realpath_from root acc (c # cs) = realpath_from root (acc @ [c]) cs"
        using False by (auto split: option.splits node.splits)
      from nl have "\<not> (\<exists>t. lookup (order_normal root) (acc @ [c]) = Some (Link t))"
        by (simp add: lookup_order_normal_Link)
      then have "realpath_from (order_normal root) acc (c # cs) = realpath_from (order_normal root) (acc @ [c]) cs"
        using False by (auto split: option.splits node.splits)
      with a show ?thesis by (simp add: Cons.IH)
    qed
  qed
qed

lemma resolve_order_normal: "resolve (order_normal root) p = resolve root p"
  by (simp add: resolve_def realpath_from_order_normal)

lemma exists_path_order_normal: "exists_path (order_normal root) p = exists_path root p"
proof (cases "lookup root (resolve root p)")
  case None
  then show ?thesis by (simp add: exists_path_def resolve_order_normal lookup_order_normal)
next
  case (Some k)
  then show ?thesis
    by (cases k) (simp_all add: exists_path_def resolve_order_normal lookup_order_normal)
qed

lemma read_text_order_normal: "read_text (order_normal root) p = read_text root p"
proof (cases "lookup root (resolve root p)")
  case None
  then show ?thesis by (simp add: read_text_def resolve_order_normal lookup_order_normal)
next
  case (Some k)
  then show ?thesis
    by (cases k) (simp_all add: read_text_def resolve_order_normal lookup_order_normal)
qed

lemma walk_Cons: "walk p (e # rest) = walk p [e] @ walk p rest"
proof (cases e)
  case (Pair n k)
  then show ?thesis by (cases k) simp_all
qed

lemma mset_walk_insort:
  "mset (walk p (insort_key fst e xs)) = mset (walk p (e # xs))"
proof (induction xs)
  case Nil
  show ?case by simp
next
  case (Cons y ys)
  show ?case
  proof (cases "fst e \<le> fst y")
    case True
    then show ?thesis by simp
  next
    case False
    then have "mset (walk p (insort_key fst e (y # ys))) = mset (walk p (y # insort_key fst e ys))"
      by simp
    also have "\<dots> = mset (walk p [y]) + mset (walk p (insort_key fst e ys))"
      by (subst walk_Cons) simp
    also have "\<dots> = mset (walk p [y]) + mset (walk p (e # ys))"
      by (simp only: Cons.IH)
    also have "\<dots> = mset (walk p [y]) + (mset (walk p [e]) + mset (walk p ys))"
      by (subst (2) walk_Cons) simp
    also have "\<dots> = mset (walk p [e]) + (mset (walk p [y]) + mset (walk p ys))"
      by (simp add: ac_simps)
    also have "\<dots> = mset (walk p [e]) + mset (walk p (y # ys))"
      by (subst (3) walk_Cons) simp
    also have "\<dots> = mset (walk p (e # y # ys))"
      by (subst (3) walk_Cons) simp
    finally show ?thesis .
  qed
qed

lemma mset_walk_sort: "mset (walk p (sort_key fst xs)) = mset (walk p xs)"
proof (induction xs)
  case Nil
  show ?case by simp
next
  case (Cons x xs)
  have "mset (walk p (sort_key fst (x # xs))) = mset (walk p (x # sort_key fst xs))"
    by (simp add: mset_walk_insort)
  also have "\<dots> = mset (walk p [x]) + mset (walk p (sort_key fst xs))"
    by (subst walk_Cons) simp
  also have "\<dots> = mset (walk p [x]) + mset (walk p xs)"
    by (simp only: Cons.IH)
  also have "\<dots> = mset (walk p (x # xs))"
    by (subst (2) walk_Cons) simp
  finally show ?case .
qed

lemma mset_walk_order_normal:
  "mset (walk p (map (\<lambda>e. (fst e, order_normal (snd e))) kids)) = mset (walk p kids)"
proof (induction p kids rule: walk.induct)
  case (4 p n kids rest)
  have "mset (walk (p @ [n]) (sort_key fst (map (\<lambda>e. (fst e, order_normal (snd e))) kids)))
          = mset (walk (p @ [n]) kids)"
    by (simp only: mset_walk_sort "4.IH"(1))
  then show ?case using "4.IH"(2) by simp
qed simp_all

lemma mset_rglob_md_order_normal: "mset (rglob_md (order_normal root) b) = mset (rglob_md root b)"
proof (cases "lookup root (resolve root b)")
  case None
  then show ?thesis by (simp add: rglob_md_def resolve_order_normal lookup_order_normal)
next
  case (Some k)
  show ?thesis
  proof (cases k)
    case (Dir kids)
    have "mset (walk b (sort_key fst (map (\<lambda>e. (fst e, order_normal (snd e))) kids))) = mset (walk b kids)"
      by (simp only: mset_walk_sort mset_walk_order_normal)
    then show ?thesis using Some Dir
      by (simp add: rglob_md_def resolve_order_normal lookup_order_normal)
  qed (simp_all add: rglob_md_def resolve_order_normal lookup_order_normal Some)
qed

lemma dead_of_entries_order:
  assumes "mset es = mset es'"
  shows "dead_of_entries root refs es = dead_of_entries root refs es'"
proof -
  let ?f = "\<lambda>xs. map (resolve root)
              (filter (\<lambda>p. name p \<noteq> ''SUMMARY.md'' \<and> resolve root p \<notin> refs) xs)"
  have "mset (?f xs) = image_mset (resolve root)
           (filter_mset (\<lambda>p. name p \<noteq> ''SUMMARY.md'' \<and> resolve root p \<notin> refs) (mset xs))" for xs
    by simp
  then have "mset (?f es) = mset (?f es')"
    using assms by (simp only:)
  then have "mset (sort (?f es')) = mset (?f es)" by simp
  then have "sort (?f es) = sort (?f es')"
    by (rule properties_for_sort) simp
  then show ?thesis by (simp add: dead_of_entries_sort)
qed

lemma resolve_order_normal_fun: "resolve (order_normal root) = resolve root"
  by (rule ext) (rule resolve_order_normal)

lemma parse_content_order_normal: "parse_content (order_normal root) sp content = parse_content root sp content"
  by (simp add: parse_content_image resolve_order_normal)

lemma dead_of_entries_order_normal:
  "dead_of_entries (order_normal root) refs es = dead_of_entries root refs es"
  by (simp add: dead_of_entries_sort resolve_order_normal resolve_order_normal_fun)

lemma find_dead_pages_order_normal:
  "find_dead_pages (order_normal root) b refs = find_dead_pages root b refs"
  unfolding find_dead_pages_def dead_of_entries_order_normal
  by (rule dead_of_entries_order) (rule mset_rglob_md_order_normal)

lemma parse_summary_order_normal: "parse_summary (order_normal root) sp = parse_summary root sp"
  by (simp add: parse_summary_def read_text_order_normal parse_content_order_normal cong: sum.case_cong)

lemma find_book_src_order_normal: "find_book_src (order_normal root) s = find_book_src root s"
  by (simp add: find_book_src_def resolve_order_normal exists_path_order_normal)

lemma main_order_normal: "main (order_normal root) s = main root s"
  by (simp add: main_def find_book_src_order_normal exists_path_order_normal parse_summary_order_normal
        find_dead_pages_order_normal cong: sum.case_cong if_cong)

lemma run_dead_pages_order_normal: "run_dead_pages (order_normal root) s = run_dead_pages root s"
  by (simp add: run_dead_pages_def find_book_src_order_normal exists_path_order_normal parse_summary_order_normal
        find_dead_pages_order_normal cong: sum.case_cong if_cong)

text \<open>
  C8. Two runs over the same tree, whatever the order in which the operating system
  enumerates each directory, print the same text, produce the same dead-page list and
  end with the same exit status. (The program reads nothing but the tree and the
  location of the script, and its result is a function of them.)
\<close>

theorem same_tree_same_run:
  assumes "order_normal root = order_normal root'"
  shows "main root script_file = main root' script_file
       \<and> run_dead_pages root script_file = run_dead_pages root' script_file
       \<and> exit_status (snd (main root script_file)) = exit_status (snd (main root' script_file))"
proof -
  have "main root script_file = main (order_normal root) script_file" by (simp add: main_order_normal)
  also have "\<dots> = main root' script_file" by (simp add: assms main_order_normal)
  finally have m: "main root script_file = main root' script_file" .
  have "run_dead_pages root script_file = run_dead_pages (order_normal root) script_file"
    by (simp add: run_dead_pages_order_normal)
  also have "\<dots> = run_dead_pages root' script_file" by (simp add: assms run_dead_pages_order_normal)
  finally show ?thesis using m by simp
qed

theorem same_tree_same_run_witness:
  "order_normal (scenario_tree ''[Intro](intro.md) [Guide](guide/start.md)'')
     = order_normal (scenario_tree_reordered ''[Intro](intro.md) [Guide](guide/start.md)'')
   \<and> scenario_tree ''[Intro](intro.md) [Guide](guide/start.md)''
        \<noteq> scenario_tree_reordered ''[Intro](intro.md) [Guide](guide/start.md)''
   \<and> run_dead_pages (scenario_tree_reordered ''[Intro](intro.md) [Guide](guide/start.md)'')
         scenario_script = Some [[''proj'', ''book'', ''src'', ''orphan.md'']]
   \<and> exit_status (snd (main (scenario_tree_reordered ''[Intro](intro.md) [Guide](guide/start.md)'')
         scenario_script)) = 1"
proof -
  have c: "order_normal (scenario_tree ''[Intro](intro.md) [Guide](guide/start.md)'')
     = order_normal (scenario_tree_reordered ''[Intro](intro.md) [Guide](guide/start.md)'')"
    by code_simp
  have n: "scenario_tree ''[Intro](intro.md) [Guide](guide/start.md)''
        \<noteq> scenario_tree_reordered ''[Intro](intro.md) [Guide](guide/start.md)''"
    by code_simp
  have d: "run_dead_pages (scenario_tree ''[Intro](intro.md) [Guide](guide/start.md)'')
         scenario_script = Some [[''proj'', ''book'', ''src'', ''orphan.md'']]"
    by code_simp
  have e: "exit_status (snd (main (scenario_tree ''[Intro](intro.md) [Guide](guide/start.md)'')
         scenario_script)) = 1"
    by code_simp
  from same_tree_same_run [OF c, of scenario_script] d e
  have "run_dead_pages (scenario_tree_reordered ''[Intro](intro.md) [Guide](guide/start.md)'')
         scenario_script = Some [[''proj'', ''book'', ''src'', ''orphan.md'']]
      \<and> exit_status (snd (main (scenario_tree_reordered ''[Intro](intro.md) [Guide](guide/start.md)'')
         scenario_script)) = 1"
    by simp
  with c n show ?thesis by blast
qed

end
